theory Spec2Isabelle
  imports Complex_Main
begin

section \<open>The people router: mutating handlers of \<^verbatim>\<open>routers/people.py\<close>\<close>

text \<open>
  The handlers \<^verbatim>\<open>delete_person\<close>, \<^verbatim>\<open>verify_person_on_photo\<close>,
  \<^verbatim>\<open>batch_verify_person_on_photos\<close> and \<^verbatim>\<open>unlink_person_from_photo\<close> are embedded
  as functions from a world (the two tables the handlers touch and the number of calls of
  \<^verbatim>\<open>rebuild_players_index\<close> made so far) to a result and the world afterwards. A raise is
  the \<open>Inl\<close> branch of the result; the world is returned in both branches, because a
  statement that has run is not undone by an exception raised after it.
\<close>

subsection \<open>Tables\<close>

text \<open>
  A row of \<^verbatim>\<open>photo_faces\<close>, with the columns the handlers read and write. Column
  \<^verbatim>\<open>id\<close> is named \<open>face_id\<close> (as the router's own alias \<^verbatim>\<open>pf.id as face_id\<close>);
  SQL \<^verbatim>\<open>NULL\<close> is \<open>None\<close>. An id column holds values of the column's type (for
  \<^verbatim>\<open>photo_id\<close> a uuid, as the cast \<^verbatim>\<open>$2::uuid[]\<close> shows), each written here as the
  text the database prints for it. The \<^verbatim>\<open>str\<close> a handler receives is not such a value
  yet: the database reads it first (\<open>person_id_in\<close>, \<open>photo_id_in\<close> below), and two
  spellings of one uuid are read as the same value.
\<close>

record face =
  face_id :: string
  photo_id :: string
  person_id :: "string option"
  verified :: bool
  recognition_confidence :: "real option"

text \<open>
  The world: the ids of the rows of \<^verbatim>\<open>people\<close>, the rows of \<^verbatim>\<open>photo_faces\<close> in a fixed
  order, and how many times \<^verbatim>\<open>FaceRecognitionService.rebuild_players_index\<close> has been
  called.
\<close>

record world =
  people :: "string list"
  photo_faces :: "face list"
  rebuild_calls :: nat

subsection \<open>Collaborators that can raise\<close>

text \<open>
  \<^verbatim>\<open>PostgresClient\<close> and \<^verbatim>\<open>FaceRecognitionService\<close> are imported by the router and are
  not part of it. Whether one of their calls raises is a parameter of every handler: each
  field is \<open>None\<close> when the call returns and \<open>Some m\<close> when it raises an exception \<open>e\<close>
  with \<^verbatim>\<open>str(e)\<close> = \<open>m\<close> (a lost connection, an index that cannot be written). Each
  handler makes each kind of call at most once.

  How the database reads the text of a query argument is a parameter too:
  \<open>person_id_in\<close> for an argument compared with column \<^verbatim>\<open>person_id\<close> (or with the id of
  a person), \<open>photo_id_in\<close> for one compared with column \<^verbatim>\<open>photo_id\<close>. The result is
  \<open>Inr v\<close> for the value \<open>v\<close> the text denotes and \<open>Inl m\<close> when the text is rejected,
  in which case the statement raises with message \<open>m\<close>. Every theorem below holds for
  every such reading; \<open>uuid_in\<close> further down is the one the examples use.
\<close>

record env =
  connect_raises :: "string option"
  query_raises :: "string option"
  rebuild_raises :: "string option"
  person_id_in :: "string \<Rightarrow> string + string"
  photo_id_in :: "string \<Rightarrow> string + string"

datatype exception =
    HTTPException nat string
  | Exception string

text \<open>The JSON bodies the four handlers return.\<close>

datatype response =
    Deleted string
  | Verified
  | VerifiedCount nat
  | UnlinkedCount nat

text \<open>\<^verbatim>\<open>await db.connect()\<close>.\<close>

definition connect :: "env \<Rightarrow> string + unit" where
  "connect env = (case connect_raises env of Some e \<Rightarrow> Inl e | None \<Rightarrow> Inr ())"

text \<open>
  \<^verbatim>\<open>await db.fetch(query, ...)\<close> for a query of the shape
  \<^verbatim>\<open>UPDATE photo_faces SET ... WHERE ... RETURNING id\<close>: every row that satisfies the
  \<^verbatim>\<open>WHERE\<close> clause is replaced by its updated version, in one statement, and the ids of
  those rows are returned. The \<^verbatim>\<open>WHERE\<close> clause arrives with its arguments read: \<open>Inl m\<close>
  when one of them was rejected, and then the statement raises. A statement that raises
  changes nothing.
\<close>

definition fetch_update :: "env \<Rightarrow> string + (face \<Rightarrow> bool) \<Rightarrow> (face \<Rightarrow> face) \<Rightarrow> world
    \<Rightarrow> (string + string list) \<times> world" where
  "fetch_update env wh st w =
     (case query_raises env of
        Some e \<Rightarrow> (Inl e, w)
      | None \<Rightarrow>
          (case wh of
             Inl e \<Rightarrow> (Inl e, w)
           | Inr sel \<Rightarrow>
               (Inr (map face_id (filter sel (photo_faces w))),
                w\<lparr>photo_faces := map (\<lambda>r. if sel r then st r else r) (photo_faces w)\<rparr>)))"

text \<open>
  \<^verbatim>\<open>await face_service.rebuild_players_index()\<close>: the call is counted, whether it returns
  or raises. What the index then holds is not part of this model.
\<close>

definition rebuild_players_index :: "env \<Rightarrow> world \<Rightarrow> (string + unit) \<times> world" where
  "rebuild_players_index env w =
     ((case rebuild_raises env of Some e \<Rightarrow> Inl e | None \<Rightarrow> Inr ()),
      w\<lparr>rebuild_calls := Suc (rebuild_calls w)\<rparr>)"

subsection \<open>The SQL of the three updates\<close>

text \<open>
  \<^verbatim>\<open>WHERE person_id = $1 AND photo_id = $2\<close>: both arguments are read as values of their
  columns' types and the comparison is between values. A row whose \<^verbatim>\<open>person_id\<close> is
  \<^verbatim>\<open>NULL\<close> never satisfies the comparison.
\<close>

definition where_person_photo :: "env \<Rightarrow> string \<Rightarrow> string \<Rightarrow> string + (face \<Rightarrow> bool)" where
  "where_person_photo env person photo =
     (case person_id_in env person of
        Inl e \<Rightarrow> Inl e
      | Inr p \<Rightarrow>
          (case photo_id_in env photo of
             Inl e \<Rightarrow> Inl e
           | Inr ph \<Rightarrow> Inr (\<lambda>r. person_id r = Some p \<and> photo_id r = ph)))"

text \<open>The cast \<^verbatim>\<open>$2::uuid[]\<close>: every element of the list is read; one rejected element
  rejects the list.\<close>

fun photo_ids_in :: "env \<Rightarrow> string list \<Rightarrow> string + string list" where
  "photo_ids_in env [] = Inr []"
| "photo_ids_in env (x # xs) =
     (case photo_id_in env x of
        Inl e \<Rightarrow> Inl e
      | Inr ph \<Rightarrow>
          (case photo_ids_in env xs of
             Inl e \<Rightarrow> Inl e
           | Inr phs \<Rightarrow> Inr (ph # phs)))"

text \<open>\<^verbatim>\<open>WHERE person_id = $1 AND photo_id = ANY($2::uuid[])\<close>.\<close>

definition where_person_photos :: "env \<Rightarrow> string \<Rightarrow> string list \<Rightarrow> string + (face \<Rightarrow> bool)" where
  "where_person_photos env person photo_ids =
     (case person_id_in env person of
        Inl e \<Rightarrow> Inl e
      | Inr p \<Rightarrow>
          (case photo_ids_in env photo_ids of
             Inl e \<Rightarrow> Inl e
           | Inr phs \<Rightarrow> Inr (\<lambda>r. person_id r = Some p \<and> photo_id r \<in> set phs)))"

text \<open>\<^verbatim>\<open>SET verified = true, recognition_confidence = 1.0\<close>.\<close>

definition set_verified :: "face \<Rightarrow> face" where
  "set_verified r = r\<lparr>verified := True, recognition_confidence := Some 1\<rparr>"

text \<open>\<^verbatim>\<open>SET person_id = NULL, verified = false, recognition_confidence = NULL\<close>.\<close>

definition set_unlinked :: "face \<Rightarrow> face" where
  "set_unlinked r = r\<lparr>person_id := None, verified := False, recognition_confidence := None\<rparr>"

subsection \<open>The two shapes of \<^verbatim>\<open>except\<close> clauses\<close>

text \<open>
  \<^verbatim>\<open>except HTTPException: raise\<close> followed by
  \<^verbatim>\<open>except Exception as e: raise HTTPException(status_code=500, detail=str(e))\<close>
  (\<^verbatim>\<open>delete_person\<close>, \<^verbatim>\<open>verify_person_on_photo\<close>).
\<close>

definition except_reraise_http :: "(exception + response) \<times> world \<Rightarrow> (exception + response) \<times> world" where
  "except_reraise_http r =
     (case r of
        (Inl (HTTPException c d), w) \<Rightarrow> (Inl (HTTPException c d), w)
      | (Inl (Exception e), w) \<Rightarrow> (Inl (HTTPException 500 e), w)
      | (Inr v, w) \<Rightarrow> (Inr v, w))"

text \<open>
  \<^verbatim>\<open>except Exception as e: raise HTTPException(status_code=500, detail=str(e))\<close> alone
  (\<^verbatim>\<open>batch_verify_person_on_photos\<close>, \<^verbatim>\<open>unlink_person_from_photo\<close>). The bodies of
  these two handlers raise nothing themselves, so what reaches the clause is an exception
  of a collaborator, given by its \<^verbatim>\<open>str(e)\<close>.
\<close>

definition except_exception :: "(string + response) \<times> world \<Rightarrow> (exception + response) \<times> world" where
  "except_exception r =
     (case r of
        (Inl e, w) \<Rightarrow> (Inl (HTTPException 500 e), w)
      | (Inr v, w) \<Rightarrow> (Inr v, w))"

subsection \<open>\<^verbatim>\<open>delete_person\<close>\<close>

text \<open>
  Modelled from the spec: \<^verbatim>\<open>PostgresClient.delete_person\<close>, which the router awaits and
  whose code is not in the router. The spec's \<^verbatim>\<open>deletePerson(personId)\<close> fails with
  NotFound if the person is absent (the router reads that as a false result) and otherwise
  removes the person and detaches every face record that references it (cleared to
  unassigned: the variant the spec states as its default). The person is looked up by the
  value the database reads from the argument.
\<close>

definition db_delete_person :: "env \<Rightarrow> string \<Rightarrow> world \<Rightarrow> (string + bool) \<times> world" where
  "db_delete_person env person w =
     (case connect env of
        Inl e \<Rightarrow> (Inl e, w)
      | Inr _ \<Rightarrow>
          (case query_raises env of
             Some e \<Rightarrow> (Inl e, w)
           | None \<Rightarrow>
               (case person_id_in env person of
                  Inl e \<Rightarrow> (Inl e, w)
                | Inr p \<Rightarrow>
                    if p \<notin> set (people w) then (Inr False, w)
                    else (Inr True,
                          w\<lparr>people := removeAll p (people w),
                            photo_faces :=
                              map (\<lambda>r. if person_id r = Some p then set_unlinked r else r)
                                (photo_faces w)\<rparr>))))"

definition delete_person_try :: "env \<Rightarrow> string \<Rightarrow> world \<Rightarrow> (exception + response) \<times> world" where
  "delete_person_try env person w =
     (case db_delete_person env person w of
        (Inl e, w1) \<Rightarrow> (Inl (Exception e), w1)
      | (Inr success, w1) \<Rightarrow>
          if \<not> success then
            (Inl (HTTPException 404 (''Person '' @ person @ '' not found'')), w1)
          else
            (case rebuild_players_index env w1 of
               (Inl e, w2) \<Rightarrow> (Inl (Exception e), w2)
             | (Inr _, w2) \<Rightarrow> (Inr (Deleted (''Person '' @ person @ '' deleted'')), w2)))"

definition delete_person :: "env \<Rightarrow> string \<Rightarrow> world \<Rightarrow> (exception + response) \<times> world" where
  "delete_person env person w = except_reraise_http (delete_person_try env person w)"

subsection \<open>\<^verbatim>\<open>verify_person_on_photo\<close>\<close>

definition verify_person_on_photo_try :: "env \<Rightarrow> string \<Rightarrow> string \<Rightarrow> world
    \<Rightarrow> (exception + response) \<times> world" where
  "verify_person_on_photo_try env person photo w =
     (case connect env of
        Inl e \<Rightarrow> (Inl (Exception e), w)
      | Inr _ \<Rightarrow>
          (case fetch_update env (where_person_photo env person photo) set_verified w of
             (Inl e, w1) \<Rightarrow> (Inl (Exception e), w1)
           | (Inr result, w1) \<Rightarrow>
               if result = [] then
                 (Inl (HTTPException 404
                    (''Face not found for person '' @ person @ '' on photo '' @ photo)), w1)
               else
                 (case rebuild_players_index env w1 of
                    (Inl e, w2) \<Rightarrow> (Inl (Exception e), w2)
                  | (Inr _, w2) \<Rightarrow> (Inr Verified, w2))))"

definition verify_person_on_photo :: "env \<Rightarrow> string \<Rightarrow> string \<Rightarrow> world
    \<Rightarrow> (exception + response) \<times> world" where
  "verify_person_on_photo env person photo w =
     except_reraise_http (verify_person_on_photo_try env person photo w)"

subsection \<open>\<^verbatim>\<open>batch_verify_person_on_photos\<close>\<close>

definition batch_verify_person_on_photos_try :: "env \<Rightarrow> string \<Rightarrow> string list \<Rightarrow> world
    \<Rightarrow> (string + response) \<times> world" where
  "batch_verify_person_on_photos_try env person photo_ids w =
     (case connect env of
        Inl e \<Rightarrow> (Inl e, w)
      | Inr _ \<Rightarrow>
          if photo_ids = [] then (Inr (VerifiedCount 0), w)
          else
            (case fetch_update env (where_person_photos env person photo_ids) set_verified w of
               (Inl e, w1) \<Rightarrow> (Inl e, w1)
             | (Inr result, w1) \<Rightarrow>
                 (let verified_count = length result in
                  if verified_count > 0 then
                    (case rebuild_players_index env w1 of
                       (Inl e, w2) \<Rightarrow> (Inl e, w2)
                     | (Inr _, w2) \<Rightarrow> (Inr (VerifiedCount verified_count), w2))
                  else (Inr (VerifiedCount verified_count), w1))))"

definition batch_verify_person_on_photos :: "env \<Rightarrow> string \<Rightarrow> string list \<Rightarrow> world
    \<Rightarrow> (exception + response) \<times> world" where
  "batch_verify_person_on_photos env person photo_ids w =
     except_exception (batch_verify_person_on_photos_try env person photo_ids w)"

subsection \<open>\<^verbatim>\<open>unlink_person_from_photo\<close>\<close>

definition unlink_person_from_photo_try :: "env \<Rightarrow> string \<Rightarrow> string \<Rightarrow> world
    \<Rightarrow> (string + response) \<times> world" where
  "unlink_person_from_photo_try env person photo w =
     (case connect env of
        Inl e \<Rightarrow> (Inl e, w)
      | Inr _ \<Rightarrow>
          (case fetch_update env (where_person_photo env person photo) set_unlinked w of
             (Inl e, w1) \<Rightarrow> (Inl e, w1)
           | (Inr result, w1) \<Rightarrow>
               (let unlinked_count = length result in
                if unlinked_count > 0 then
                  (case rebuild_players_index env w1 of
                     (Inl e, w2) \<Rightarrow> (Inl e, w2)
                   | (Inr _, w2) \<Rightarrow> (Inr (UnlinkedCount unlinked_count), w2))
                else (Inr (UnlinkedCount unlinked_count), w1))))"

definition unlink_person_from_photo :: "env \<Rightarrow> string \<Rightarrow> string \<Rightarrow> world
    \<Rightarrow> (exception + response) \<times> world" where
  "unlink_person_from_photo env person photo w =
     except_exception (unlink_person_from_photo_try env person photo w)"

subsection \<open>The routes\<close>

text \<open>The four mutating routes of the router, and the handler each one reaches.\<close>

datatype request =
    DeletePerson string
  | VerifyOnPhoto string string
  | BatchVerifyOnPhotos string "string list"
  | UnlinkFromPhoto string string

fun route :: "env \<Rightarrow> request \<Rightarrow> world \<Rightarrow> (exception + response) \<times> world" where
  "route env (DeletePerson person) w = delete_person env person w"
| "route env (VerifyOnPhoto person photo) w = verify_person_on_photo env person photo w"
| "route env (BatchVerifyOnPhotos person photo_ids) w =
     batch_verify_person_on_photos env person photo_ids w"
| "route env (UnlinkFromPhoto person photo) w = unlink_person_from_photo env person photo w"


text \<open>The person a request names (the \<^verbatim>\<open>{person_id}\<close> of its path).\<close>

fun person_of :: "request \<Rightarrow> string" where
  "person_of (DeletePerson person) = person"
| "person_of (VerifyOnPhoto person photo) = person"
| "person_of (BatchVerifyOnPhotos person photo_ids) = person"
| "person_of (UnlinkFromPhoto person photo) = person"

subsection \<open>The face record invariant\<close>

text \<open>
  The invariant the data model states for a face record: a verified record has a person
  and recognition confidence 1.0.
\<close>

definition face_invariant :: "face \<Rightarrow> bool" where
  "face_invariant r \<longleftrightarrow>
     (verified r \<longrightarrow> person_id r \<noteq> None \<and> recognition_confidence r = Some 1)"

text \<open>
  What one request may do to the table: each row stays as it was or, when it belongs to the
  request's person, becomes a row that satisfies the invariant. The person is given as the
  database reads the request's \<^verbatim>\<open>person_id\<close>; when that text is rejected, no row belongs
  to it.
\<close>

definition rows_step :: "string + string \<Rightarrow> face list \<Rightarrow> face list \<Rightarrow> bool" where
  "rows_step person rows rows' \<longleftrightarrow>
     list_all2
       (\<lambda>r r'. r' = r \<or>
          ((case person of Inl e \<Rightarrow> False | Inr p \<Rightarrow> person_id r = Some p) \<and> face_invariant r'))
       rows rows'"

subsection \<open>Concrete data for the examples\<close>

abbreviation person_a :: string where
  "person_a \<equiv> ''6a1f0c3e-52b7-4d8e-9b40-1c2d3e4f5a60''"

abbreviation person_b :: string where
  "person_b \<equiv> ''0d9e8f7a-6b5c-4a3b-8c2d-1e0f9a8b7c6d''"

abbreviation photo_a :: string where
  "photo_a \<equiv> ''b3c4d5e6-f7a8-4b9c-8d0e-1f2a3b4c5d6e''"

abbreviation photo_b :: string where
  "photo_b \<equiv> ''c4d5e6f7-a8b9-4c0d-9e1f-2a3b4c5d6e7f''"

abbreviation face_a :: string where
  "face_a \<equiv> ''e1d2c3b4-a596-4877-8695-a4b3c2d1e0f1''"

abbreviation face_b :: string where
  "face_b \<equiv> ''f2e3d4c5-b6a7-4988-97a6-b5c4d3e2f1a2''"

text \<open>Two other spellings of the uuid \<open>photo_a\<close>: in upper case, and without hyphens.\<close>

abbreviation photo_a_upper :: string where
  "photo_a_upper \<equiv> ''B3C4D5E6-F7A8-4B9C-8D0E-1F2A3B4C5D6E''"

abbreviation photo_a_plain :: string where
  "photo_a_plain \<equiv> ''b3c4d5e6f7a84b9c8d0e1f2a3b4c5d6e''"

text \<open>
  The reading of uuid text the examples use: hyphens are skipped, the 32 hexadecimal digits
  are read in either case, and the value is written in lower case in the grouping
  8-4-4-4-12. Anything else is rejected.
\<close>

definition hex_digit :: "char \<Rightarrow> char option" where
  "hex_digit c = map_of (zip ''0123456789abcdefABCDEF'' ''0123456789abcdefabcdef'') c"

definition uuid_in :: "string \<Rightarrow> string + string" where
  "uuid_in s =
     (case those (map hex_digit (filter (\<lambda>c. c \<noteq> CHR ''-'') s)) of
        None \<Rightarrow> Inl (''invalid UUID '' @ s)
      | Some h \<Rightarrow>
          if length h = 32 then
            Inr (take 8 h @ ''-'' @ take 4 (drop 8 h) @ ''-'' @ take 4 (drop 12 h) @ ''-''
                   @ take 4 (drop 16 h) @ ''-'' @ drop 20 h)
          else Inl (''invalid UUID '' @ s))"

text \<open>Every collaborator call returns.\<close>

abbreviation env_ok :: env where
  "env_ok \<equiv> \<lparr>connect_raises = None, query_raises = None, rebuild_raises = None,
              person_id_in = uuid_in, photo_id_in = uuid_in\<rparr>"

text \<open>The database answers, the index rebuild raises.\<close>

abbreviation env_rebuild_fails :: env where
  "env_rebuild_fails \<equiv>
     \<lparr>connect_raises = None, query_raises = None,
      rebuild_raises = Some ''index storage unavailable'',
      person_id_in = uuid_in, photo_id_in = uuid_in\<rparr>"

text \<open>The connection is there; a statement or a rebuild would raise.\<close>

abbreviation env_only_connects :: env where
  "env_only_connects \<equiv>
     \<lparr>connect_raises = None, query_raises = Some ''connection reset'',
      rebuild_raises = Some ''index storage unavailable'',
      person_id_in = uuid_in, photo_id_in = uuid_in\<rparr>"

text \<open>
  One person with an unverified face on \<open>photo_a\<close>, and one unassigned face on
  \<open>photo_b\<close>; no rebuild has run yet.
\<close>

abbreviation row_a :: face where
  "row_a \<equiv> \<lparr>face_id = face_a, photo_id = photo_a, person_id = Some person_a,
            verified = False, recognition_confidence = Some (3 / 4)\<rparr>"

abbreviation row_b :: face where
  "row_b \<equiv> \<lparr>face_id = face_b, photo_id = photo_b, person_id = None,
            verified = False, recognition_confidence = None\<rparr>"

abbreviation world_a :: world where
  "world_a \<equiv> \<lparr>people = [person_a], photo_faces = [row_a, row_b], rebuild_calls = 0\<rparr>"


section \<open>Properties of the handlers\<close>

subsection \<open>Auxiliary facts\<close>

lemmas handler_defs =
  connect_def fetch_update_def rebuild_players_index_def
  except_reraise_http_def except_exception_def
  db_delete_person_def delete_person_try_def delete_person_def
  verify_person_on_photo_try_def verify_person_on_photo_def
  batch_verify_person_on_photos_try_def batch_verify_person_on_photos_def
  unlink_person_from_photo_try_def unlink_person_from_photo_def

lemmas sql_defs =
  where_person_photo_def where_person_photos_def set_verified_def set_unlinked_def

text \<open>An update whose \<^verbatim>\<open>WHERE\<close> clause selects no row leaves the table as it was.\<close>

lemma map_if_unchanged:
  "filter P xs = [] \<Longrightarrow> map (\<lambda>r. if P r then f r else r) xs = xs"
  by (induction xs) (auto split: if_splits)

text \<open>The values an accepted list of photo ids denotes are those its elements denote.\<close>

lemma photo_ids_in_set:
  "photo_ids_in env xs = Inr phs \<Longrightarrow>
     u \<in> set phs \<longleftrightarrow> (\<exists>x \<in> set xs. photo_id_in env x = Inr u)"
proof (induction xs arbitrary: phs)
  case Nil
  then show ?case by simp
next
  case (Cons x xs)
  from Cons.prems obtain ph phs' where
    x: "photo_id_in env x = Inr ph" and xs: "photo_ids_in env xs = Inr phs'"
    and phs: "phs = ph # phs'"
    by (auto split: sum.splits)
  from Cons.IH [OF xs] x phs show ?case
    by auto
qed

text \<open>Reading a list of photo ids does not depend on whether the rebuild raises.\<close>

lemma photo_ids_in_rebuild_raises:
  "photo_ids_in (env\<lparr>rebuild_raises := x\<rparr>) xs = photo_ids_in env xs"
  by (induction xs) (simp_all split: sum.splits)

text \<open>The spellings of the examples and the values they denote.\<close>

lemma uuid_in_examples:
  "uuid_in person_a = Inr person_a" "uuid_in person_b = Inr person_b"
  "uuid_in photo_a = Inr photo_a" "uuid_in photo_b = Inr photo_b"
  "uuid_in photo_a_upper = Inr photo_a" "uuid_in photo_a_plain = Inr photo_a"
  by (simp_all add: uuid_in_def hex_digit_def)

subsection \<open>A rebuild that raises after the update\<close>

text \<open>
  Claim C1, as the spec states it, fails on the router. In \<open>world_a\<close> person
  \<open>person_a\<close> has a face on \<open>photo_a\<close>; verifying it updates the row, and when the
  rebuild that follows raises, the handler answers with HTTP 500 although the row stays
  verified.
\<close>

theorem verify_reports_rebuild_failure:
  "route env_rebuild_fails (VerifyOnPhoto person_a photo_a) world_a =
     (Inl (HTTPException 500 ''index storage unavailable''),
      \<lparr>people = [person_a],
       photo_faces =
         [\<lparr>face_id = face_a, photo_id = photo_a, person_id = Some person_a,
           verified = True, recognition_confidence = Some 1\<rparr>, row_b],
       rebuild_calls = 1\<rparr>)"
  by (simp add: handler_defs sql_defs uuid_in_examples)

text \<open>
  Claim C1, amended: for each of the four mutating operations, when the index rebuild it
  calls raises, the operation answers its caller with HTTP 500 carrying the rebuild's
  message. The mutation itself had succeeded (with a rebuild that returns, the same
  request succeeds) and the tables are left exactly as that successful run leaves them.
\<close>

theorem rebuild_failure_is_http_500:
  assumes "rebuild_raises env = Some m"
    and "rebuild_calls (snd (route env req w)) \<noteq> rebuild_calls w"
  shows "fst (route env req w) = Inl (HTTPException 500 m)
       \<and> (\<exists>v. fst (route (env\<lparr>rebuild_raises := None\<rparr>) req w) = Inr v)
       \<and> people (snd (route env req w))
           = people (snd (route (env\<lparr>rebuild_raises := None\<rparr>) req w))
       \<and> photo_faces (snd (route env req w))
           = photo_faces (snd (route (env\<lparr>rebuild_raises := None\<rparr>) req w))"
proof (cases req)
  case (DeletePerson person)
  with assms show ?thesis
    by (auto simp: handler_defs split: option.splits sum.splits if_splits)
next
  case (VerifyOnPhoto person photo)
  with assms show ?thesis
    by (auto simp: handler_defs where_person_photo_def split: option.splits sum.splits if_splits)
next
  case (BatchVerifyOnPhotos person photo_ids)
  with assms show ?thesis
    by (auto simp: handler_defs where_person_photos_def Let_def photo_ids_in_rebuild_raises
          split: option.splits sum.splits if_splits)
next
  case (UnlinkFromPhoto person photo)
  with assms show ?thesis
    by (auto simp: handler_defs where_person_photo_def Let_def
          split: option.splits sum.splits if_splits)
qed

theorem rebuild_failure_is_http_500_witness:
  "rebuild_raises env_rebuild_fails = Some ''index storage unavailable''
   \<and> rebuild_calls (snd (route env_rebuild_fails (DeletePerson person_a) world_a)) = 1
   \<and> rebuild_calls world_a = 0
   \<and> fst (route env_rebuild_fails (DeletePerson person_a) world_a)
       = Inl (HTTPException 500 ''index storage unavailable'')
   \<and> people (snd (route env_rebuild_fails (DeletePerson person_a) world_a)) = []"
proof -
  have raises: "rebuild_raises env_rebuild_fails = Some ''index storage unavailable''"
    by simp
  have calls: "rebuild_calls (snd (route env_rebuild_fails (DeletePerson person_a) world_a)) = 1"
    by (simp add: handler_defs sql_defs uuid_in_examples)
  then have called:
    "rebuild_calls (snd (route env_rebuild_fails (DeletePerson person_a) world_a))
       \<noteq> rebuild_calls world_a"
    by simp
  have ok: "people (snd (route (env_rebuild_fails\<lparr>rebuild_raises := None\<rparr>)
                     (DeletePerson person_a) world_a)) = []"
    by (simp add: handler_defs sql_defs uuid_in_examples)
  from rebuild_failure_is_http_500 [OF raises called] ok calls show ?thesis
    by simp
qed

subsection \<open>How many rebuilds a successful operation makes\<close>

text \<open>
  Claim C2, as the spec states it, fails on the router. Person \<open>person_a\<close> has no face
  on \<open>photo_b\<close>; unlinking the two succeeds, reports zero rows and calls no rebuild.
\<close>

theorem unlink_without_match_no_rebuild:
  "route env_ok (UnlinkFromPhoto person_a photo_b) world_a = (Inr (UnlinkedCount 0), world_a)
   \<and> rebuild_calls (snd (route env_ok (UnlinkFromPhoto person_a photo_b) world_a)) = 0"
  by (simp add: handler_defs sql_defs uuid_in_examples)

text \<open>
  Claim C2, amended: a successful delete-person, verify-on-photo, batch-verify or unlink
  calls the index rebuild exactly once, except that a batch-verify or an unlink that
  reports zero rows calls none and leaves everything as it was.
\<close>

theorem rebuild_once_unless_zero_rows:
  assumes "route env req w = (Inr v, w')"
  shows "rebuild_calls w' =
           rebuild_calls w + (if v = VerifiedCount 0 \<or> v = UnlinkedCount 0 then 0 else 1)
       \<and> (v = VerifiedCount 0 \<or> v = UnlinkedCount 0 \<longrightarrow> w' = w)"
proof (cases req)
  case (DeletePerson person)
  with assms show ?thesis
    by (auto simp: handler_defs split: option.splits sum.splits if_splits)
next
  case (VerifyOnPhoto person photo)
  with assms show ?thesis
    by (auto simp: handler_defs where_person_photo_def
          split: option.splits sum.splits if_splits)
next
  case (BatchVerifyOnPhotos person photo_ids)
  with assms show ?thesis
    by (auto simp: handler_defs where_person_photos_def Let_def map_if_unchanged
          split: option.splits sum.splits if_splits)
next
  case (UnlinkFromPhoto person photo)
  with assms show ?thesis
    by (auto simp: handler_defs where_person_photo_def Let_def map_if_unchanged
          split: option.splits sum.splits if_splits)
qed

theorem rebuild_once_unless_zero_rows_witness:
  "route env_ok (UnlinkFromPhoto person_a photo_a) world_a =
     (Inr (UnlinkedCount 1),
      \<lparr>people = [person_a],
       photo_faces =
         [\<lparr>face_id = face_a, photo_id = photo_a, person_id = None,
           verified = False, recognition_confidence = None\<rparr>, row_b],
       rebuild_calls = 1\<rparr>)
   \<and> rebuild_calls (snd (route env_ok (UnlinkFromPhoto person_a photo_a) world_a))
       = rebuild_calls world_a + 1"
proof -
  have run: "route env_ok (UnlinkFromPhoto person_a photo_a) world_a =
     (Inr (UnlinkedCount 1),
      \<lparr>people = [person_a],
       photo_faces =
         [\<lparr>face_id = face_a, photo_id = photo_a, person_id = None,
           verified = False, recognition_confidence = None\<rparr>, row_b],
       rebuild_calls = 1\<rparr>)"
    by (simp add: handler_defs sql_defs uuid_in_examples)
  from rebuild_once_unless_zero_rows [OF run] show ?thesis
    using run by simp
qed

subsection \<open>Batch verification: one update, at most one rebuild\<close>

text \<open>
  Claim C3, as the spec states it, fails on the router. Person \<open>person_b\<close> has no face
  on either photo of the non-empty list; the call succeeds with zero rows and no rebuild
  runs, where the claim promises exactly one.
\<close>

theorem batch_verify_no_match_no_rebuild:
  "route env_ok (BatchVerifyOnPhotos person_b [photo_a, photo_b]) world_a
     = (Inr (VerifiedCount 0), world_a)
   \<and> rebuild_calls
        (snd (route env_ok (BatchVerifyOnPhotos person_b [photo_a, photo_b]) world_a)) = 0"
  by (simp add: handler_defs sql_defs uuid_in_examples)

text \<open>
  Claim C3, amended: for every non-empty list of photo ids, one batch-verify call for a
  person performs a single multi-row update (every row of the person whose photo the list
  names, in whatever spelling, is set to verified with confidence 1.0, all other rows are
  untouched) and calls the rebuild at most once, whatever the length of the list: once
  when at least one row was updated, not at all when no row matched. This is for a call
  whose connection and statement go through and whose ids the database accepts.
\<close>

theorem batch_verify_one_update_one_rebuild:
  assumes "connect_raises env = None" and "query_raises env = None" and "photo_ids \<noteq> []"
    and "person_id_in env person = Inr p" and "photo_ids_in env photo_ids = Inr phs"
  shows "photo_faces (snd (batch_verify_person_on_photos env person photo_ids w)) =
           map (\<lambda>r. if person_id r = Some p
                        \<and> (\<exists>x \<in> set photo_ids. photo_id_in env x = Inr (photo_id r))
                    then r\<lparr>verified := True, recognition_confidence := Some 1\<rparr> else r)
             (photo_faces w)
       \<and> rebuild_calls (snd (batch_verify_person_on_photos env person photo_ids w)) =
           rebuild_calls w +
             (if \<exists>r \<in> set (photo_faces w). person_id r = Some p
                   \<and> (\<exists>x \<in> set photo_ids. photo_id_in env x = Inr (photo_id r))
              then 1 else 0)"
proof -
  let ?sel = "\<lambda>r. person_id r = Some p
                 \<and> (\<exists>x \<in> set photo_ids. photo_id_in env x = Inr (photo_id r))"
  have sel: "(\<lambda>r. person_id r = Some p \<and> photo_id r \<in> set phs) = ?sel"
    using photo_ids_in_set [OF assms(5)] by (intro ext) simp
  have wh: "where_person_photos env person photo_ids = Inr ?sel"
    using assms(4,5) sel by (simp add: where_person_photos_def)
  show ?thesis
  proof (cases "filter ?sel (photo_faces w) = []")
    case True
    then have "\<not> (\<exists>r \<in> set (photo_faces w). ?sel r)"
      by (simp add: filter_empty_conv)
    with True assms(1-3) show ?thesis
      by (auto simp: handler_defs wh set_verified_def Let_def split: option.splits)
  next
    case False
    then have "\<exists>r \<in> set (photo_faces w). ?sel r"
      by (simp add: filter_empty_conv)
    with False assms(1-3) show ?thesis
      by (auto simp: handler_defs wh set_verified_def Let_def split: option.splits)
  qed
qed

theorem batch_verify_one_update_one_rebuild_witness:
  "photo_faces (snd (batch_verify_person_on_photos env_ok person_a
                       [photo_a_upper, photo_b, photo_a_plain] world_a))
     = [\<lparr>face_id = face_a, photo_id = photo_a, person_id = Some person_a,
         verified = True, recognition_confidence = Some 1\<rparr>, row_b]
   \<and> rebuild_calls (snd (batch_verify_person_on_photos env_ok person_a
                            [photo_a_upper, photo_b, photo_a_plain] world_a)) = 1"
proof -
  have "connect_raises env_ok = None" and "query_raises env_ok = None"
    and "[photo_a_upper, photo_b, photo_a_plain] \<noteq> []"
    and "person_id_in env_ok person_a = Inr person_a"
    and "photo_ids_in env_ok [photo_a_upper, photo_b, photo_a_plain]
           = Inr [photo_a, photo_b, photo_a]"
    by (simp_all add: uuid_in_examples)
  from batch_verify_one_update_one_rebuild [OF this, of world_a]
  show ?thesis by (simp add: uuid_in_examples)
qed

subsection \<open>The face record invariant is preserved\<close>

lemma rows_step_refl: "rows_step person rows rows"
  by (simp add: rows_step_def list_all2_refl)

lemma rows_step_map:
  assumes "\<And>r. sel r \<Longrightarrow> person_id r = Some p \<and> face_invariant (f r)"
  shows "rows_step (Inr p) rows (map (\<lambda>r. if sel r then f r else r) rows)"
  unfolding rows_step_def using assms by (induction rows) auto

text \<open>
  One statement: the table stays as it was when the statement raises, and otherwise each
  selected row is rewritten.
\<close>

lemma fetch_update_step:
  assumes "\<And>sel r. wh = Inr sel \<Longrightarrow> sel r \<Longrightarrow> person_id r = Some p \<and> face_invariant (st r)"
  shows "rows_step (Inr p) (photo_faces w) (photo_faces (snd (fetch_update env wh st w)))"
proof (cases "query_raises env")
  case (Some e)
  then show ?thesis by (simp add: fetch_update_def rows_step_refl)
next
  case None
  show ?thesis
  proof (cases wh)
    case (Inl e)
    with None show ?thesis by (simp add: fetch_update_def rows_step_refl)
  next
    case (Inr sel)
    with assms have "\<And>r. sel r \<Longrightarrow> person_id r = Some p \<and> face_invariant (st r)"
      by blast
    then have "rows_step (Inr p) (photo_faces w)
                 (map (\<lambda>r. if sel r then st r else r) (photo_faces w))"
      by (rule rows_step_map)
    with None Inr show ?thesis by (simp add: fetch_update_def)
  qed
qed

lemma fetch_update_rejected:
  "photo_faces (snd (fetch_update env (Inl e) st w)) = photo_faces w"
  by (simp add: fetch_update_def split: option.splits)

lemma where_person_photo_rejected:
  "person_id_in env person = Inl e \<Longrightarrow> where_person_photo env person photo = Inl e"
  by (simp add: where_person_photo_def)

lemma where_person_photos_rejected:
  "person_id_in env person = Inl e \<Longrightarrow> where_person_photos env person photo_ids = Inl e"
  by (simp add: where_person_photos_def)

lemma where_person_photo_person:
  "person_id_in env person = Inr p \<Longrightarrow> where_person_photo env person photo = Inr sel \<Longrightarrow>
     sel r \<Longrightarrow> person_id r = Some p"
  by (auto simp: where_person_photo_def split: sum.splits)

lemma where_person_photos_person:
  "person_id_in env person = Inr p \<Longrightarrow> where_person_photos env person photo_ids = Inr sel \<Longrightarrow>
     sel r \<Longrightarrow> person_id r = Some p"
  by (auto simp: where_person_photos_def split: sum.splits)

text \<open>What each handler leaves of the table is what its one statement leaves, or the table
  it found.\<close>

lemma verify_faces:
  "photo_faces (snd (verify_person_on_photo env person photo w)) = photo_faces w \<or>
   photo_faces (snd (verify_person_on_photo env person photo w)) =
     photo_faces (snd (fetch_update env (where_person_photo env person photo) set_verified w))"
  by (auto simp: handler_defs split: option.splits sum.splits prod.splits)

lemma batch_verify_faces:
  "photo_faces (snd (batch_verify_person_on_photos env person photo_ids w)) = photo_faces w \<or>
   photo_faces (snd (batch_verify_person_on_photos env person photo_ids w)) =
     photo_faces (snd (fetch_update env (where_person_photos env person photo_ids)
                         set_verified w))"
  by (auto simp: handler_defs Let_def split: option.splits sum.splits prod.splits)

lemma unlink_faces:
  "photo_faces (snd (unlink_person_from_photo env person photo w)) = photo_faces w \<or>
   photo_faces (snd (unlink_person_from_photo env person photo w)) =
     photo_faces (snd (fetch_update env (where_person_photo env person photo) set_unlinked w))"
  by (auto simp: handler_defs Let_def split: option.splits sum.splits prod.splits)

lemma verify_step:
  "rows_step (person_id_in env person) (photo_faces w)
     (photo_faces (snd (verify_person_on_photo env person photo w)))"
proof (cases "person_id_in env person")
  case (Inl e)
  with verify_faces [of env person photo w] show ?thesis
    by (auto simp: where_person_photo_rejected fetch_update_rejected rows_step_refl)
next
  case (Inr p)
  have "rows_step (Inr p) (photo_faces w)
          (photo_faces (snd (fetch_update env (where_person_photo env person photo)
                               set_verified w)))"
    by (rule fetch_update_step)
      (auto dest: where_person_photo_person [OF Inr] simp: face_invariant_def set_verified_def)
  with verify_faces [of env person photo w] Inr show ?thesis
    by (auto simp: rows_step_refl)
qed

lemma batch_verify_step:
  "rows_step (person_id_in env person) (photo_faces w)
     (photo_faces (snd (batch_verify_person_on_photos env person photo_ids w)))"
proof (cases "person_id_in env person")
  case (Inl e)
  with batch_verify_faces [of env person photo_ids w] show ?thesis
    by (auto simp: where_person_photos_rejected fetch_update_rejected rows_step_refl)
next
  case (Inr p)
  have "rows_step (Inr p) (photo_faces w)
          (photo_faces (snd (fetch_update env (where_person_photos env person photo_ids)
                               set_verified w)))"
    by (rule fetch_update_step)
      (auto dest: where_person_photos_person [OF Inr] simp: face_invariant_def set_verified_def)
  with batch_verify_faces [of env person photo_ids w] Inr show ?thesis
    by (auto simp: rows_step_refl)
qed

lemma unlink_step:
  "rows_step (person_id_in env person) (photo_faces w)
     (photo_faces (snd (unlink_person_from_photo env person photo w)))"
proof (cases "person_id_in env person")
  case (Inl e)
  with unlink_faces [of env person photo w] show ?thesis
    by (auto simp: where_person_photo_rejected fetch_update_rejected rows_step_refl)
next
  case (Inr p)
  have "rows_step (Inr p) (photo_faces w)
          (photo_faces (snd (fetch_update env (where_person_photo env person photo)
                               set_unlinked w)))"
    by (rule fetch_update_step)
      (auto dest: where_person_photo_person [OF Inr] simp: face_invariant_def set_unlinked_def)
  with unlink_faces [of env person photo w] Inr show ?thesis
    by (auto simp: rows_step_refl)
qed

lemma delete_person_step:
  "rows_step (person_id_in env person) (photo_faces w)
     (photo_faces (snd (delete_person env person w)))"
proof (cases "person_id_in env person")
  case (Inl e)
  then have "photo_faces (snd (delete_person env person w)) = photo_faces w"
    by (simp add: handler_defs split: option.splits)
  then show ?thesis by (simp add: rows_step_refl)
next
  case (Inr p)
  have "rows_step (Inr p) (photo_faces w)
          (map (\<lambda>r. if person_id r = Some p then set_unlinked r else r) (photo_faces w))"
    by (rule rows_step_map) (simp add: face_invariant_def set_unlinked_def)
  moreover have "photo_faces (snd (delete_person env person w)) = photo_faces w \<or>
     photo_faces (snd (delete_person env person w)) =
       map (\<lambda>r. if person_id r = Some p then set_unlinked r else r) (photo_faces w)"
    using Inr by (simp add: handler_defs split: option.splits)
  ultimately show ?thesis
    using Inr by (auto simp: rows_step_refl)
qed

lemma route_step:
  "rows_step (person_id_in env (person_of req)) (photo_faces w)
     (photo_faces (snd (route env req w)))"
  by (cases req) (simp_all add: delete_person_step verify_step batch_verify_step unlink_step)

lemma rows_step_invariant:
  assumes "rows_step person rows rows'" and "\<forall>r \<in> set rows. face_invariant r"
  shows "\<forall>r \<in> set rows'. face_invariant r"
proof
  fix r' assume "r' \<in> set rows'"
  then obtain i where i: "i < length rows'" "rows' ! i = r'"
    by (auto simp: in_set_conv_nth)
  from assms(1) have len: "length rows = length rows'"
    and step: "rows' ! i = rows ! i \<or> face_invariant (rows' ! i)"
    using i(1) by (auto simp: rows_step_def list_all2_conv_all_nth)
  from len i(1) assms(2) have "face_invariant (rows ! i)" by simp
  with step i(2) show "face_invariant r'" by auto
qed

text \<open>
  Claim C4: every operation preserves the invariant that a verified face record has a
  person and recognition confidence 1.0. Whatever the collaborators do, a request rewrites
  only rows of its own person (the person the database reads from the request), and every
  row it rewrites satisfies the invariant afterwards: verify-on-photo and batch-verify set
  verified together with confidence 1.0 on rows that keep their person, unlink (and the
  cascade of delete-person) clears verified together with the person. So a table that
  satisfies the invariant still does after the request.
\<close>

theorem face_invariant_preserved:
  "rows_step (person_id_in env (person_of req)) (photo_faces w)
     (photo_faces (snd (route env req w)))
   \<and> ((\<forall>r \<in> set (photo_faces w). face_invariant r)
        \<longrightarrow> (\<forall>r \<in> set (photo_faces (snd (route env req w))). face_invariant r))"
proof (intro conjI impI)
  show "rows_step (person_id_in env (person_of req)) (photo_faces w)
          (photo_faces (snd (route env req w)))"
    by (rule route_step)
next
  assume "\<forall>r \<in> set (photo_faces w). face_invariant r"
  with route_step show "\<forall>r \<in> set (photo_faces (snd (route env req w))). face_invariant r"
    by (rule rows_step_invariant)
qed

theorem face_invariant_preserved_witness:
  "list_all face_invariant (photo_faces world_a)
   \<and> photo_faces (snd (route env_ok (VerifyOnPhoto person_a photo_a) world_a))
       = [\<lparr>face_id = face_a, photo_id = photo_a, person_id = Some person_a,
           verified = True, recognition_confidence = Some 1\<rparr>, row_b]
   \<and> list_all face_invariant
       (photo_faces (snd (route env_ok (VerifyOnPhoto person_a photo_a) world_a)))"
proof -
  have pre: "\<forall>r \<in> set (photo_faces world_a). face_invariant r"
    by (simp add: face_invariant_def)
  have run: "photo_faces (snd (route env_ok (VerifyOnPhoto person_a photo_a) world_a))
       = [\<lparr>face_id = face_a, photo_id = photo_a, person_id = Some person_a,
           verified = True, recognition_confidence = Some 1\<rparr>, row_b]"
    by (simp add: handler_defs sql_defs uuid_in_examples)
  from face_invariant_preserved [of env_ok "VerifyOnPhoto person_a photo_a" world_a] pre
  have "\<forall>r \<in> set (photo_faces (snd (route env_ok (VerifyOnPhoto person_a photo_a) world_a))).
          face_invariant r"
    by blast
  with pre run show ?thesis
    by (simp add: list_all_iff)
qed

subsection \<open>Unlinking\<close>

text \<open>
  Claim C5: when the database answers and accepts the two ids, every face record that an
  unlink call affects (a row of the person on the photo, whatever the spelling of the ids
  in the request) has afterwards \<open>person_id\<close> null, \<open>verified\<close> false and
  \<open>recognition_confidence\<close> null, with its other columns unchanged, and every other row
  is untouched; a call that returns reports the number of rows it cleared, and the call
  does return when the rebuild does not raise.
\<close>

theorem unlink_clears_and_counts:
  assumes "connect_raises env = None" and "query_raises env = None"
    and "person_id_in env person = Inr p" and "photo_id_in env photo = Inr ph"
  shows "length (photo_faces (snd (unlink_person_from_photo env person photo w)))
           = length (photo_faces w)
       \<and> (\<forall>i < length (photo_faces w).
            if person_id (photo_faces w ! i) = Some p \<and> photo_id (photo_faces w ! i) = ph
            then photo_faces (snd (unlink_person_from_photo env person photo w)) ! i
                   = (photo_faces w ! i)
                       \<lparr>person_id := None, verified := False, recognition_confidence := None\<rparr>
            else photo_faces (snd (unlink_person_from_photo env person photo w)) ! i
                   = photo_faces w ! i)
       \<and> (\<forall>v. fst (unlink_person_from_photo env person photo w) = Inr v \<longrightarrow>
              v = UnlinkedCount (length (filter
                    (\<lambda>r. person_id r = Some p \<and> photo_id r = ph) (photo_faces w))))
       \<and> (rebuild_raises env = None \<longrightarrow>
              (\<exists>v. fst (unlink_person_from_photo env person photo w) = Inr v))"
proof -
  let ?sel = "\<lambda>r. person_id r = Some p \<and> photo_id r = ph"
  have wh: "where_person_photo env person photo = Inr ?sel"
    using assms(3,4) by (simp add: where_person_photo_def)
  have rows: "photo_faces (snd (unlink_person_from_photo env person photo w))
                = map (\<lambda>r. if ?sel r then set_unlinked r else r) (photo_faces w)"
    using assms(1,2) by (simp add: handler_defs wh Let_def split: option.splits)
  have res: "fst (unlink_person_from_photo env person photo w) = Inr v \<Longrightarrow>
               v = UnlinkedCount (length (filter ?sel (photo_faces w)))" for v
    using assms(1,2) by (simp add: handler_defs wh Let_def split: option.splits if_splits)
  have ok: "rebuild_raises env = None \<Longrightarrow>
              \<exists>v. fst (unlink_person_from_photo env person photo w) = Inr v"
    using assms(1,2) by (simp add: handler_defs wh Let_def)
  from rows have "length (photo_faces (snd (unlink_person_from_photo env person photo w)))
           = length (photo_faces w)"
    by simp
  moreover from rows have "\<forall>i < length (photo_faces w).
            if ?sel (photo_faces w ! i)
            then photo_faces (snd (unlink_person_from_photo env person photo w)) ! i
                   = (photo_faces w ! i)
                       \<lparr>person_id := None, verified := False, recognition_confidence := None\<rparr>
            else photo_faces (snd (unlink_person_from_photo env person photo w)) ! i
                   = photo_faces w ! i"
    by (simp add: set_unlinked_def)
  ultimately show ?thesis using res ok by blast
qed

theorem unlink_clears_and_counts_witness:
  "photo_faces (snd (unlink_person_from_photo env_ok person_a photo_a_upper world_a)) ! 0
     = \<lparr>face_id = face_a, photo_id = photo_a, person_id = None,
        verified = False, recognition_confidence = None\<rparr>
   \<and> photo_faces (snd (unlink_person_from_photo env_ok person_a photo_a_upper world_a)) ! 1
       = row_b
   \<and> fst (unlink_person_from_photo env_ok person_a photo_a_upper world_a)
       = Inr (UnlinkedCount 1)"
proof -
  have pre: "connect_raises env_ok = None" "query_raises env_ok = None"
    "person_id_in env_ok person_a = Inr person_a"
    "photo_id_in env_ok photo_a_upper = Inr photo_a"
    by (simp_all add: uuid_in_examples)
  note inst = unlink_clears_and_counts [OF pre, of world_a]
  from inst have q:
    "if person_id ([row_a, row_b] ! i) = Some person_a \<and> photo_id ([row_a, row_b] ! i) = photo_a
     then photo_faces (snd (unlink_person_from_photo env_ok person_a photo_a_upper world_a)) ! i
            = ([row_a, row_b] ! i)
                \<lparr>person_id := None, verified := False, recognition_confidence := None\<rparr>
     else photo_faces (snd (unlink_person_from_photo env_ok person_a photo_a_upper world_a)) ! i
            = [row_a, row_b] ! i" if "i < 2" for i
    using that by simp
  from q [of 0] q [of 1] have rows:
    "photo_faces (snd (unlink_person_from_photo env_ok person_a photo_a_upper world_a)) ! 0
     = \<lparr>face_id = face_a, photo_id = photo_a, person_id = None,
        verified = False, recognition_confidence = None\<rparr>"
    "photo_faces (snd (unlink_person_from_photo env_ok person_a photo_a_upper world_a)) ! 1
     = row_b"
    by simp_all
  from inst obtain v where
    v: "fst (unlink_person_from_photo env_ok person_a photo_a_upper world_a) = Inr v"
    by auto
  with inst have "v = UnlinkedCount 1" by simp
  with v rows show ?thesis by simp
qed

text \<open>
  Claim C6, as the spec states it, fails on the router. The table holds no face at all, so
  the face the call refers to is unknown; the call does not fail with NotFound, it
  succeeds and reports zero rows.
\<close>

theorem unlink_unknown_face_succeeds:
  "unlink_person_from_photo env_ok person_a photo_a
     \<lparr>people = [person_a], photo_faces = [], rebuild_calls = 0\<rparr>
   = (Inr (UnlinkedCount 0), \<lparr>people = [person_a], photo_faces = [], rebuild_calls = 0\<rparr>)"
  by (simp add: handler_defs sql_defs uuid_in_examples)

text \<open>
  Claim C6, amended: unlink never fails with NotFound. When the person has no face on the
  photo, be it because no such face is known or because the face is already unassigned,
  and the database answers and accepts the two ids, the call succeeds as a no-op: it
  reports zero rows, changes nothing and calls no rebuild. The only error an unlink call
  answers with is HTTP 500.
\<close>

theorem unlink_without_face_is_noop:
  "(connect_raises env = None \<and> query_raises env = None
      \<and> person_id_in env person = Inr p \<and> photo_id_in env photo = Inr ph
      \<and> \<not> (\<exists>r \<in> set (photo_faces w). person_id r = Some p \<and> photo_id r = ph)
     \<longrightarrow> unlink_person_from_photo env person photo w = (Inr (UnlinkedCount 0), w))
   \<and> (\<forall>c d. fst (unlink_person_from_photo env person photo w) = Inl (HTTPException c d)
        \<longrightarrow> c = 500)"
proof (intro conjI impI allI)
  assume a: "connect_raises env = None \<and> query_raises env = None
      \<and> person_id_in env person = Inr p \<and> photo_id_in env photo = Inr ph
      \<and> \<not> (\<exists>r \<in> set (photo_faces w). person_id r = Some p \<and> photo_id r = ph)"
  then have wh: "where_person_photo env person photo
                   = Inr (\<lambda>r. person_id r = Some p \<and> photo_id r = ph)"
    by (simp add: where_person_photo_def)
  from a have "filter (\<lambda>r. person_id r = Some p \<and> photo_id r = ph) (photo_faces w) = []"
    by (auto simp: filter_empty_conv)
  with a show "unlink_person_from_photo env person photo w = (Inr (UnlinkedCount 0), w)"
    by (simp add: handler_defs wh map_if_unchanged)
next
  fix c d
  assume "fst (unlink_person_from_photo env person photo w) = Inl (HTTPException c d)"
  then show "c = 500"
    by (simp add: handler_defs Let_def split: option.splits sum.splits if_splits)
qed

theorem unlink_without_face_is_noop_witness:
  "\<not> (\<exists>r \<in> set (photo_faces world_a). person_id r = Some person_a \<and> photo_id r = photo_b)
   \<and> unlink_person_from_photo env_ok person_a photo_b world_a = (Inr (UnlinkedCount 0), world_a)
   \<and> unlink_person_from_photo env_ok person_b photo_a_upper world_a
       = (Inr (UnlinkedCount 0), world_a)"
proof -
  have a: "connect_raises env_ok = None \<and> query_raises env_ok = None
      \<and> person_id_in env_ok person_a = Inr person_a \<and> photo_id_in env_ok photo_b = Inr photo_b
      \<and> \<not> (\<exists>r \<in> set (photo_faces world_a). person_id r = Some person_a \<and> photo_id r = photo_b)"
    by (simp add: uuid_in_examples)
  have b: "connect_raises env_ok = None \<and> query_raises env_ok = None
      \<and> person_id_in env_ok person_b = Inr person_b
      \<and> photo_id_in env_ok photo_a_upper = Inr photo_a
      \<and> \<not> (\<exists>r \<in> set (photo_faces world_a). person_id r = Some person_b \<and> photo_id r = photo_a)"
    by (simp add: uuid_in_examples)
  from unlink_without_face_is_noop [of env_ok person_a person_a photo_b photo_b world_a] a
    unlink_without_face_is_noop [of env_ok person_b person_b photo_a_upper photo_a world_a] b
  show ?thesis by blast
qed

subsection \<open>The count a batch verification reports\<close>

text \<open>
  Claim C7: when no collaborator raises and the database accepts the ids, batch-verify
  succeeds and returns the number of rows it updated, which are the rows of the person
  whose photo the list names. A photo id with no face linked to the person is skipped: it
  changes neither the result nor the world, and it does not make the call fail.
\<close>

theorem batch_verify_counts_updated_rows:
  assumes "connect_raises env = None" and "query_raises env = None"
    and "rebuild_raises env = None"
    and "person_id_in env person = Inr p" and "photo_ids_in env photo_ids = Inr phs"
  shows "fst (batch_verify_person_on_photos env person photo_ids w) =
           Inr (VerifiedCount (length (filter
             (\<lambda>r. person_id r = Some p
                    \<and> (\<exists>x \<in> set photo_ids. photo_id_in env x = Inr (photo_id r)))
             (photo_faces w))))
       \<and> photo_faces (snd (batch_verify_person_on_photos env person photo_ids w)) =
           map (\<lambda>r. if person_id r = Some p
                        \<and> (\<exists>x \<in> set photo_ids. photo_id_in env x = Inr (photo_id r))
                    then r\<lparr>verified := True, recognition_confidence := Some 1\<rparr> else r)
             (photo_faces w)
       \<and> (photo_id_in env photo = Inr ph
            \<and> \<not> (\<exists>r \<in> set (photo_faces w). person_id r = Some p \<and> photo_id r = ph)
            \<longrightarrow> batch_verify_person_on_photos env person (photo # photo_ids) w
                = batch_verify_person_on_photos env person photo_ids w)"
proof -
  let ?sel = "\<lambda>r. person_id r = Some p
                 \<and> (\<exists>x \<in> set photo_ids. photo_id_in env x = Inr (photo_id r))"
  have sel: "(\<lambda>r. person_id r = Some p \<and> photo_id r \<in> set phs) = ?sel"
    using photo_ids_in_set [OF assms(5)] by (intro ext) simp
  have wh: "where_person_photos env person photo_ids = Inr ?sel"
    using assms(4,5) sel by (simp add: where_person_photos_def)
  have count: "fst (batch_verify_person_on_photos env person photo_ids w) =
           Inr (VerifiedCount (length (filter ?sel (photo_faces w))))"
    using assms(1-3) by (simp add: handler_defs wh Let_def)
  have rows: "photo_faces (snd (batch_verify_person_on_photos env person photo_ids w)) =
           map (\<lambda>r. if ?sel r then r\<lparr>verified := True, recognition_confidence := Some 1\<rparr> else r)
             (photo_faces w)"
  proof (cases "photo_ids = []")
    case True
    with assms(1) show ?thesis
      by (simp add: handler_defs)
  next
    case False
    with assms(1-3) show ?thesis
      by (cases "filter ?sel (photo_faces w) = []")
        (auto simp: handler_defs wh set_verified_def Let_def)
  qed
  have skip: "batch_verify_person_on_photos env person (photo # photo_ids) w
                = batch_verify_person_on_photos env person photo_ids w"
    if ph: "photo_id_in env photo = Inr ph"
      and no: "\<not> (\<exists>r \<in> set (photo_faces w). person_id r = Some p \<and> photo_id r = ph)"
  proof -
    let ?sel' = "\<lambda>r. person_id r = Some p \<and> photo_id r \<in> set (ph # phs)"
    have wh': "where_person_photos env person (photo # photo_ids) = Inr ?sel'"
      using assms(4,5) ph by (simp add: where_person_photos_def)
    from no sel have same: "?sel' r = ?sel r" if "r \<in> set (photo_faces w)" for r
      using that by (auto dest: fun_cong [of _ _ r])
    then have f: "filter ?sel' (photo_faces w) = filter ?sel (photo_faces w)"
      by (simp cong: filter_cong)
    from same have m: "map (\<lambda>r. if ?sel' r then set_verified r else r) (photo_faces w)
                 = map (\<lambda>r. if ?sel r then set_verified r else r) (photo_faces w)"
      by (simp cong: map_cong)
    show ?thesis
    proof (cases "photo_ids = []")
      case True
      from wh' True have wh1: "where_person_photos env person [photo] = Inr ?sel'"
        by simp
      from f True have f0: "filter ?sel' (photo_faces w) = []"
        by simp
      from assms(1-3) show ?thesis
        unfolding True
        by (simp add: handler_defs wh1 f0 map_if_unchanged Let_def del: set_simps)
    next
      case False
      with assms(1-3) f m show ?thesis
        by (simp add: handler_defs wh wh' Let_def del: set_simps)
    qed
  qed
  from count rows skip show ?thesis by blast
qed

theorem batch_verify_counts_updated_rows_witness:
  "\<not> (\<exists>r \<in> set (photo_faces world_a). person_id r = Some person_a \<and> photo_id r = photo_b)
   \<and> fst (batch_verify_person_on_photos env_ok person_a [photo_a_upper] world_a)
       = Inr (VerifiedCount 1)
   \<and> photo_faces (snd (batch_verify_person_on_photos env_ok person_a [photo_a_upper] world_a))
       = [\<lparr>face_id = face_a, photo_id = photo_a, person_id = Some person_a,
           verified = True, recognition_confidence = Some 1\<rparr>, row_b]
   \<and> batch_verify_person_on_photos env_ok person_a [photo_b, photo_a_upper] world_a
       = batch_verify_person_on_photos env_ok person_a [photo_a_upper] world_a"
proof -
  have pre: "connect_raises env_ok = None" "query_raises env_ok = None"
    "rebuild_raises env_ok = None"
    "person_id_in env_ok person_a = Inr person_a"
    "photo_ids_in env_ok [photo_a_upper] = Inr [photo_a]"
    by (simp_all add: uuid_in_examples)
  have no: "photo_id_in env_ok photo_b = Inr photo_b
     \<and> \<not> (\<exists>r \<in> set (photo_faces world_a). person_id r = Some person_a \<and> photo_id r = photo_b)"
    by (simp add: uuid_in_examples)
  from batch_verify_counts_updated_rows [OF pre, where w = world_a and photo = photo_b and ph = photo_b] no
  show ?thesis by (simp add: uuid_in_examples)
qed

subsection \<open>Requests that find nothing\<close>

text \<open>
  Claim C8: when the database answers and the given person id does not exist (no person
  has the id the database reads from the request), delete-person fails with HTTP 404
  (NotFound); no rebuild is called and nothing is changed.
\<close>

theorem delete_person_not_found:
  assumes "connect_raises env = None" and "query_raises env = None"
    and "person_id_in env person = Inr p" and "p \<notin> set (people w)"
  shows "delete_person env person w =
           (Inl (HTTPException 404 (''Person '' @ person @ '' not found'')), w)"
  using assms by (simp add: handler_defs)

theorem delete_person_not_found_witness:
  "person_b \<notin> set (people world_a)
   \<and> delete_person env_ok person_b world_a =
       (Inl (HTTPException 404 (''Person '' @ person_b @ '' not found'')), world_a)"
proof -
  have pre: "connect_raises env_ok = None" "query_raises env_ok = None"
    "person_id_in env_ok person_b = Inr person_b" "person_b \<notin> set (people world_a)"
    by (simp_all add: uuid_in_examples)
  from delete_person_not_found [OF pre] pre(4) show ?thesis
    by blast
qed

text \<open>
  Claim C9: when the database answers, accepts the two ids and the person has no face
  record on the given photo, verify-on-photo fails with HTTP 404, modifies no row and
  calls no rebuild; batch-verify with that one photo succeeds with a count of zero
  instead.
\<close>

theorem verify_on_photo_not_found:
  assumes "connect_raises env = None" and "query_raises env = None"
    and "person_id_in env person = Inr p" and "photo_id_in env photo = Inr ph"
    and "\<not> (\<exists>r \<in> set (photo_faces w). person_id r = Some p \<and> photo_id r = ph)"
  shows "verify_person_on_photo env person photo w =
           (Inl (HTTPException 404
              (''Face not found for person '' @ person @ '' on photo '' @ photo)), w)
         \<and> batch_verify_person_on_photos env person [photo] w = (Inr (VerifiedCount 0), w)"
proof -
  have wh: "where_person_photo env person photo
              = Inr (\<lambda>r. person_id r = Some p \<and> photo_id r = ph)"
    using assms(3,4) by (simp add: where_person_photo_def)
  have whs: "where_person_photos env person [photo]
              = Inr (\<lambda>r. person_id r = Some p \<and> photo_id r \<in> set [ph])"
    using assms(3,4) by (simp add: where_person_photos_def)
  have a: "filter (\<lambda>r. person_id r = Some p \<and> photo_id r = ph) (photo_faces w) = []"
    using assms(5) by (auto simp: filter_empty_conv)
  have b: "filter (\<lambda>r. person_id r = Some p \<and> photo_id r \<in> set [ph]) (photo_faces w) = []"
    using assms(5) by (auto simp: filter_empty_conv)
  have one: "verify_person_on_photo env person photo w =
           (Inl (HTTPException 404
              (''Face not found for person '' @ person @ '' on photo '' @ photo)), w)"
    using assms(1,2) by (simp add: handler_defs wh a map_if_unchanged)
  have many: "batch_verify_person_on_photos env person [photo] w = (Inr (VerifiedCount 0), w)"
    using assms(1,2) by (simp add: handler_defs whs b map_if_unchanged del: set_simps)
  from one many show ?thesis by blast
qed

theorem verify_on_photo_not_found_witness:
  "\<not> (\<exists>r \<in> set (photo_faces world_a). person_id r = Some person_b \<and> photo_id r = photo_a)
   \<and> verify_person_on_photo env_ok person_b photo_a_upper world_a =
       (Inl (HTTPException 404
          (''Face not found for person '' @ person_b @ '' on photo '' @ photo_a_upper)), world_a)
   \<and> batch_verify_person_on_photos env_ok person_b [photo_a_upper] world_a
       = (Inr (VerifiedCount 0), world_a)"
proof -
  have pre: "connect_raises env_ok = None" "query_raises env_ok = None"
    "person_id_in env_ok person_b = Inr person_b"
    "photo_id_in env_ok photo_a_upper = Inr photo_a"
    "\<not> (\<exists>r \<in> set (photo_faces world_a). person_id r = Some person_b \<and> photo_id r = photo_a)"
    by (simp_all add: uuid_in_examples)
  from verify_on_photo_not_found [OF pre] pre(5) show ?thesis
    by blast
qed

text \<open>
  Claim C10: batch-verify with an empty list of photo ids returns success with
  \<open>verified_count = 0\<close> as soon as the connection is there: no update is sent and no
  rebuild is called, so neither can make the call fail.
\<close>

theorem batch_verify_empty_list:
  assumes "connect_raises env = None"
  shows "batch_verify_person_on_photos env person [] w = (Inr (VerifiedCount 0), w)"
  using assms by (simp add: handler_defs)

theorem batch_verify_empty_list_witness:
  "connect_raises env_only_connects = None
   \<and> batch_verify_person_on_photos env_only_connects person_a [] world_a
      = (Inr (VerifiedCount 0), world_a)"
proof -
  have pre: "connect_raises env_only_connects = None"
    by simp
  from batch_verify_empty_list [OF pre] pre show ?thesis
    by blast
qed

end
